theory Spec2Isabelle
  imports Main "HOL-Library.Word"
begin

unbundle bit_operations_syntax

section \<open>Bitmaps\<close>

text \<open>
  The fallback bitmap of the extension (the build without the Roaring library): an array
  of 64-bit blocks, of which the first \<open>num_blocks\<close> are in use.  The model keeps the
  blocks in use as a list, so \<open>num_blocks\<close> is its length; \<open>capacity\<close> and
  \<open>is_palloc\<close> only describe the allocation.  The allocated blocks from
  \<open>num_blocks\<close> up to \<open>capacity\<close> are always zero (\<open>palloc0\<close> in
  \<open>roaring_create\<close>, the zero-filling loop in \<open>roaring_add\<close>), which is why
  \<open>roaring_add\<close> extends the list with zero blocks.  Record identifiers are
  \<open>uint32_t\<close> values below \<open>num_records\<close>, an \<open>int\<close>; they are modelled as
  natural numbers.
\<close>

type_synonym RoaringBitmap = "64 word list"

definition roaring_create :: RoaringBitmap where
  "roaring_create = []"

definition roaring_add :: "RoaringBitmap \<Rightarrow> nat \<Rightarrow> RoaringBitmap" where
  "roaring_add rb v =
     (let block = v div 64;
          b = v mod 64;
          blocks = (if block \<ge> length rb then rb @ replicate (block + 1 - length rb) 0 else rb)
      in blocks[block := (blocks ! block) OR push_bit b 1])"

definition roaring_and :: "RoaringBitmap \<Rightarrow> RoaringBitmap \<Rightarrow> RoaringBitmap" where
  "roaring_and a b =
     (let min_blocks = (if length a < length b then length a else length b)
      in if min_blocks = 0 then roaring_create
         else map (\<lambda>i. (a ! i) AND (b ! i)) [0..<min_blocks])"

definition roaring_or :: "RoaringBitmap \<Rightarrow> RoaringBitmap \<Rightarrow> RoaringBitmap" where
  "roaring_or a b =
     (let max_blocks = (if length a > length b then length a else length b);
          min_blocks = (if length a < length b then length a else length b)
      in if max_blocks = 0 then roaring_create
         else map (\<lambda>i. (a ! i) OR (b ! i)) [0..<min_blocks] @
              (if length a > min_blocks then drop min_blocks a
               else if length b > min_blocks then drop min_blocks b
               else []))"

text \<open>\<open>__builtin_popcountll\<close> and \<open>__builtin_ctzll\<close> (the latter only called on
  a non-zero block).\<close>

definition popcountll :: "64 word \<Rightarrow> nat" where
  "popcountll w = length (filter (bit w) [0..<64])"

definition ctzll :: "64 word \<Rightarrow> nat" where
  "ctzll w = length (takeWhile (\<lambda>n. \<not> bit w n) [0..<64])"

definition roaring_count :: "RoaringBitmap \<Rightarrow> nat" where
  "roaring_count rb = sum_list (map popcountll rb)"

definition roaring_is_empty :: "RoaringBitmap \<Rightarrow> bool" where
  "roaring_is_empty rb = list_all (\<lambda>w. w = 0) rb"

text \<open>The inner loop of \<open>roaring_to_array\<close>:
  \<open>while (bits) { array[idx++] = base + ctz(bits); bits &= bits - 1; }\<close>\<close>

function block_to_array :: "nat \<Rightarrow> 64 word \<Rightarrow> nat list" where
  "block_to_array base bits =
     (if bits \<noteq> 0 then (base + ctzll bits) # block_to_array base (bits AND (bits - 1))
      else [])"
  by pat_completeness auto
termination
proof (relation "measure (\<lambda>(base, bits). unat bits)")
  show "wf (measure (\<lambda>(base, bits). unat bits))" by simp
next
  fix base :: nat and bits :: "64 word"
  assume nz: "bits \<noteq> 0"
  have "bits AND (bits - 1) \<le> bits - 1" by (rule word_and_le1)
  also have "bits - 1 < bits" using nz by (simp add: word_less_nat_alt unat_minus_one)
      (metis One_nat_def diff_less unat_gt_0 zero_less_one)
  finally show "((base, bits AND (bits - 1)), (base, bits)) \<in> measure (\<lambda>(base, bits). unat bits)"
    by (simp add: word_less_nat_alt)
qed

declare block_to_array.simps [simp del]

text \<open>\<open>roaring_to_array\<close> returns the array and stores its length through
  \<open>count\<close>; a \<open>NULL\<close> array is the empty list.\<close>

definition roaring_to_array :: "RoaringBitmap \<Rightarrow> nat list \<times> nat" where
  "roaring_to_array rb =
     (let count = roaring_count rb
      in if count = 0 then ([], count)
         else (concat (map (\<lambda>i. let bits = rb ! i
                                   in if bits = 0 then [] else block_to_array (i * 64) bits)
                           [0..<length rb]),
               count))"

definition roaring_copy :: "RoaringBitmap \<Rightarrow> RoaringBitmap" where
  "roaring_copy rb = (if length rb > 0 then rb else roaring_create)"

text \<open>The set of identifiers a bitmap holds: bit \<open>v mod 64\<close> of block
  \<open>v div 64\<close>.\<close>

definition ids_of :: "RoaringBitmap \<Rightarrow> nat set" where
  "ids_of rb = {v. v div 64 < length rb \<and> bit (rb ! (v div 64)) (v mod 64)}"

text \<open>The part of the array that the outer loop of \<open>roaring_to_array\<close> has filled
  after its first \<open>k\<close> blocks (a zero block contributes nothing).\<close>

definition blocks_to_array :: "RoaringBitmap \<Rightarrow> nat \<Rightarrow> nat list" where
  "blocks_to_array rb k = concat (map (\<lambda>i. block_to_array (i * 64) (rb ! i)) [0..<k])"

section \<open>Index structures\<close>

text \<open>
  \<open>CharIndex\<close> is a growable array of \<open>PosEntry\<close>; the model keeps the \<open>count\<close>
  entries in use as a list.  Positions are C \<open>int\<close>s: the reverse index is keyed by
  the negative offsets \<open>-1, -2, ...\<close>.  The index is the process-wide
  \<open>global_index\<close>; the model passes it as an argument.
\<close>

definition MAX_POSITIONS :: nat where
  "MAX_POSITIONS = 256"

record PosEntry =
  pos :: int
  bitmap :: RoaringBitmap

type_synonym CharIndex = "PosEntry list"

record LengthIndex =
  length_bitmaps :: "RoaringBitmap option list"
  max_length :: nat

record RoaringIndex =
  pos_idx :: "char \<Rightarrow> CharIndex"
  neg_idx :: "char \<Rightarrow> CharIndex"
  char_cache :: "char \<Rightarrow> RoaringBitmap option"
  length_idx :: LengthIndex
  data :: "string list"
  num_records :: nat
  max_len :: nat

text \<open>The linear search shared by \<open>get_pos_bitmap\<close> and \<open>get_neg_bitmap\<close>.\<close>

fun find_entry :: "CharIndex \<Rightarrow> int \<Rightarrow> RoaringBitmap option" where
  "find_entry [] p = None"
| "find_entry (e # es) p = (if pos e = p then Some (bitmap e) else find_entry es p)"

text \<open>The search-then-append shared by \<open>set_pos_bitmap\<close> and \<open>set_neg_bitmap\<close>.\<close>

fun store_entry :: "CharIndex \<Rightarrow> int \<Rightarrow> RoaringBitmap \<Rightarrow> CharIndex" where
  "store_entry [] p bm = [\<lparr>pos = p, bitmap = bm\<rparr>]"
| "store_entry (e # es) p bm =
     (if pos e = p then e\<lparr>bitmap := bm\<rparr> # es else e # store_entry es p bm)"

definition get_pos_bitmap :: "RoaringIndex \<Rightarrow> char \<Rightarrow> int \<Rightarrow> RoaringBitmap option" where
  "get_pos_bitmap gi ch p = find_entry (pos_idx gi ch) p"

definition get_neg_bitmap :: "RoaringIndex \<Rightarrow> char \<Rightarrow> int \<Rightarrow> RoaringBitmap option" where
  "get_neg_bitmap gi ch neg_offset = find_entry (neg_idx gi ch) neg_offset"

definition set_pos_bitmap :: "RoaringIndex \<Rightarrow> char \<Rightarrow> int \<Rightarrow> RoaringBitmap \<Rightarrow> RoaringIndex" where
  "set_pos_bitmap gi ch p bm = gi\<lparr>pos_idx := (pos_idx gi)(ch := store_entry (pos_idx gi ch) p bm)\<rparr>"

definition set_neg_bitmap :: "RoaringIndex \<Rightarrow> char \<Rightarrow> int \<Rightarrow> RoaringBitmap \<Rightarrow> RoaringIndex" where
  "set_neg_bitmap gi ch neg_offset bm =
     gi\<lparr>neg_idx := (neg_idx gi)(ch := store_entry (neg_idx gi ch) neg_offset bm)\<rparr>"

section \<open>Pattern analysis\<close>

record PatternInfo =
  slices :: "string list"
  starts_with_percent :: bool
  ends_with_percent :: bool

fun pattern_length_with_underscores :: "string \<Rightarrow> nat" where
  "pattern_length_with_underscores [] = 0"
| "pattern_length_with_underscores (c # cs) =
     (if c \<noteq> CHR ''%'' then 1 else 0) + pattern_length_with_underscores cs"

text \<open>The scanning loop of \<open>analyze_pattern\<close>; \<open>cur\<close> is the run between \<open>start\<close>
  and \<open>p\<close>.\<close>

fun split_slices :: "string \<Rightarrow> string \<Rightarrow> string list" where
  "split_slices [] cur = (if length cur > 0 then [cur] else [])"
| "split_slices (c # cs) cur =
     (if c = CHR ''%''
      then (if length cur > 0 then cur # split_slices cs [] else split_slices cs [])
      else split_slices cs (cur @ [c]))"

definition analyze_pattern :: "string \<Rightarrow> PatternInfo" where
  "analyze_pattern pattern =
     \<lparr>slices = split_slices pattern [],
      starts_with_percent = (length pattern > 0 \<and> pattern ! 0 = CHR ''%''),
      ends_with_percent = (length pattern > 0 \<and> pattern ! (length pattern - 1) = CHR ''%'')\<rparr>"

section \<open>Core matching functions\<close>

definition get_length_range :: "RoaringIndex \<Rightarrow> int \<Rightarrow> int \<Rightarrow> RoaringBitmap" where
  "get_length_range gi min_len maxl =
     (let ml = int (max_length (length_idx gi));
          max_len' = (if maxl < 0 \<or> maxl > ml then ml - 1 else maxl)
      in fold (\<lambda>len result.
                 if len < ml then
                   (case length_bitmaps (length_idx gi) ! nat len of
                      Some bm \<Rightarrow> roaring_or result bm
                    | None \<Rightarrow> result)
                 else result)
              [min_len..max_len'] roaring_create)"

text \<open>The loop over \<open>ch = 0 .. CHAR_RANGE - 1\<close> that unions the bitmaps of every
  byte at one position; \<open>lookup\<close> is \<open>get_pos_bitmap\<close> or \<open>get_neg_bitmap\<close>.\<close>

definition any_char_bitmap :: "(char \<Rightarrow> int \<Rightarrow> RoaringBitmap option) \<Rightarrow> int \<Rightarrow> RoaringBitmap option" where
  "any_char_bitmap lookup p =
     fold (\<lambda>ch any_char_bm.
             case lookup ch p of
               Some char_bm \<Rightarrow>
                 (case any_char_bm of
                    None \<Rightarrow> Some (roaring_copy char_bm)
                  | Some a \<Rightarrow> Some (roaring_or a char_bm))
             | None \<Rightarrow> any_char_bm)
          (Enum.enum :: char list) None"

text \<open>One iteration of the loops of \<open>match_at_pos\<close> and \<open>match_at_neg_pos\<close>: the
  left result is a \<open>return\<close> from inside the loop, the right result is the value of
  \<open>result\<close> for the next iteration.\<close>

definition match_step ::
  "(char \<Rightarrow> int \<Rightarrow> RoaringBitmap option) \<Rightarrow> char \<Rightarrow> int \<Rightarrow> RoaringBitmap option
    \<Rightarrow> RoaringBitmap + RoaringBitmap option" where
  "match_step lookup c p result =
     (if c = CHR ''_'' then
        (case any_char_bitmap lookup p of
           Some any_char_bm \<Rightarrow>
             (case result of
                None \<Rightarrow> Inr (Some any_char_bm)
              | Some r \<Rightarrow>
                  (let temp = roaring_and r any_char_bm
                   in if roaring_is_empty temp then Inl temp else Inr (Some temp)))
         | None \<Rightarrow> Inl roaring_create)
      else
        (case lookup c p of
           None \<Rightarrow> Inl roaring_create
         | Some char_bm \<Rightarrow>
             (case result of
                None \<Rightarrow> Inr (Some (roaring_copy char_bm))
              | Some r \<Rightarrow>
                  (let temp = roaring_and r char_bm
                   in if roaring_is_empty temp then Inl temp else Inr (Some temp)))))"

fun match_at_pos_loop ::
  "RoaringIndex \<Rightarrow> string \<Rightarrow> int \<Rightarrow> RoaringBitmap option \<Rightarrow> RoaringBitmap" where
  "match_at_pos_loop gi [] p result =
     (case result of Some r \<Rightarrow> r | None \<Rightarrow> roaring_create)"
| "match_at_pos_loop gi (c # cs) p result =
     (case match_step (get_pos_bitmap gi) c p result of
        Inl returned \<Rightarrow> returned
      | Inr result' \<Rightarrow> match_at_pos_loop gi cs (p + 1) result')"

definition match_at_pos :: "RoaringIndex \<Rightarrow> string \<Rightarrow> int \<Rightarrow> RoaringBitmap" where
  "match_at_pos gi pattern start_pos =
     (let plen = int (length pattern);
          required_length = start_pos + plen
      in if required_length > 0 \<and> required_length \<le> int (max_length (length_idx gi))
         then (let result = get_length_range gi required_length (-1)
               in if roaring_is_empty result then result
                  else match_at_pos_loop gi pattern start_pos (Some result))
         else match_at_pos_loop gi pattern start_pos None)"

text \<open>The loop of \<open>match_at_neg_pos\<close> runs \<open>i\<close> from \<open>plen - 1\<close> down to \<open>0\<close>;
  the counter \<open>n\<close> of the model is \<open>i + 1\<close>.\<close>

fun match_at_neg_pos_loop ::
  "RoaringIndex \<Rightarrow> string \<Rightarrow> nat \<Rightarrow> RoaringBitmap option \<Rightarrow> RoaringBitmap" where
  "match_at_neg_pos_loop gi pattern 0 result =
     (case result of Some r \<Rightarrow> r | None \<Rightarrow> roaring_create)"
| "match_at_neg_pos_loop gi pattern (Suc i) result =
     (case match_step (get_neg_bitmap gi) (pattern ! i) (- (int (length pattern) - int i)) result of
        Inl returned \<Rightarrow> returned
      | Inr result' \<Rightarrow> match_at_neg_pos_loop gi pattern i result')"

definition match_at_neg_pos :: "RoaringIndex \<Rightarrow> string \<Rightarrow> int \<Rightarrow> RoaringBitmap" where
  "match_at_neg_pos gi pattern end_offset =
     (let plen = int (length pattern);
          required_length = plen
      in if required_length > 0 \<and> required_length \<le> int (max_length (length_idx gi))
         then (let result = get_length_range gi required_length (-1)
               in if roaring_is_empty result then result
                  else match_at_neg_pos_loop gi pattern (length pattern) (Some result))
         else match_at_neg_pos_loop gi pattern (length pattern) None)"

text \<open>\<open>get_char_candidates\<close> returns \<open>NULL\<close> (\<open>None\<close>) when the pattern has no
  byte other than \<open>_\<close> and \<open>%\<close>.\<close>

fun get_char_candidates_loop ::
  "RoaringIndex \<Rightarrow> string \<Rightarrow> (char \<Rightarrow> bool) \<Rightarrow> RoaringBitmap option \<Rightarrow> RoaringBitmap option" where
  "get_char_candidates_loop gi [] seen result = result"
| "get_char_candidates_loop gi (ch # cs) seen result =
     (if ch \<noteq> CHR ''_'' \<and> ch \<noteq> CHR ''%'' \<and> \<not> seen ch then
        (case char_cache gi ch of
           Some cached \<Rightarrow>
             (case result of
                None \<Rightarrow> get_char_candidates_loop gi cs (seen(ch := True)) (Some (roaring_copy cached))
              | Some r \<Rightarrow>
                  (let temp = roaring_and r cached
                   in if roaring_is_empty temp then Some temp
                      else get_char_candidates_loop gi cs (seen(ch := True)) (Some temp)))
         | None \<Rightarrow> Some roaring_create)
      else get_char_candidates_loop gi cs seen result)"

definition get_char_candidates :: "RoaringIndex \<Rightarrow> string \<Rightarrow> RoaringBitmap option" where
  "get_char_candidates gi pattern = get_char_candidates_loop gi pattern (\<lambda>_. False) None"

fun matches_at_position :: "string \<Rightarrow> string \<Rightarrow> bool" where
  "matches_at_position s [] = True"
| "matches_at_position s (p # ps) =
     (if p = CHR ''_'' then
        (case s of [] \<Rightarrow> False | c # ss \<Rightarrow> matches_at_position ss ps)
      else
        (case s of
           [] \<Rightarrow> False
         | c # ss \<Rightarrow> if c = p then matches_at_position ss ps else False))"

text \<open>\<open>find_pattern\<close> returns a pointer into \<open>str\<close> or \<open>NULL\<close>; the pointer is
  modelled as the rest of the string from that position on.\<close>

fun find_pattern :: "string \<Rightarrow> string \<Rightarrow> string option" where
  "find_pattern [] pattern = None"
| "find_pattern (c # cs) pattern =
     (if matches_at_position (c # cs) pattern then Some (c # cs) else find_pattern cs pattern)"

definition contains_substring :: "string \<Rightarrow> string \<Rightarrow> bool" where
  "contains_substring str pattern = (find_pattern str pattern \<noteq> None)"

text \<open>The loop of \<open>verify_multislice_pattern\<close> that moves \<open>search_start\<close> past
  the slice just found.\<close>

fun advance_past :: "string \<Rightarrow> string \<Rightarrow> string" where
  "advance_past [] slice_ptr = []"
| "advance_past (c # cs) [] = c # cs"
| "advance_past (c # cs) (q # qs) =
     (if q = CHR ''_'' \<or> c = q then advance_past cs qs else c # cs)"

fun find_slices :: "string \<Rightarrow> string list \<Rightarrow> bool" where
  "find_slices search_start [] = True"
| "find_slices search_start (sl # rest) =
     (case find_pattern search_start sl of
        None \<Rightarrow> False
      | Some match_pos \<Rightarrow> find_slices (advance_past match_pos sl) rest)"

definition verify_multislice_pattern :: "RoaringIndex \<Rightarrow> RoaringBitmap \<Rightarrow> PatternInfo \<Rightarrow> RoaringBitmap" where
  "verify_multislice_pattern gi candidates info =
     (let (indices, count) = roaring_to_array candidates
      in fold (\<lambda>i verified.
                 let idx = indices ! i
                 in if find_slices (data gi ! idx) (slices info)
                    then roaring_add verified idx else verified)
              [0..<count] roaring_create)"

section \<open>The main query function\<close>

text \<open>
  The C code has no check before it reads through a bitmap pointer; reading through
  \<open>NULL\<close> ends the backend process.  That outcome is the error value of the model.
\<close>

datatype error = NullPointerDereference

text \<open>The loop of \<open>optimized_query\<close> that classifies the pattern; it stops at the
  first byte that is neither \<open>_\<close> nor \<open>%\<close>.  The result is
  \<open>(only_wildcards, underscore_count, has_percent)\<close>.\<close>

fun scan_wildcards :: "string \<Rightarrow> nat \<Rightarrow> bool \<Rightarrow> bool \<times> nat \<times> bool" where
  "scan_wildcards [] underscore_count has_percent = (True, underscore_count, has_percent)"
| "scan_wildcards (c # cs) underscore_count has_percent =
     (if c = CHR ''_'' then scan_wildcards cs (underscore_count + 1) has_percent
      else if c = CHR ''%'' then scan_wildcards cs underscore_count True
      else (False, underscore_count, has_percent))"

text \<open>The array \<open>0, 1, ..., num_records - 1\<close> together with its length.\<close>

definition all_records :: "RoaringIndex \<Rightarrow> nat list \<times> nat" where
  "all_records gi = ([0..<num_records gi], num_records gi)"

text \<open>
  The single-slice branch.  \<open>roaring_is_empty(candidates)\<close> reads through the pointer
  that \<open>get_char_candidates\<close> returned, so past that call \<open>candidates\<close> is not
  \<open>NULL\<close> and the test \<open>if (candidates)\<close> of the \<open>%pattern%\<close> case is true.
\<close>

definition query_single_slice :: "RoaringIndex \<Rightarrow> PatternInfo \<Rightarrow> error + nat list \<times> nat" where
  "query_single_slice gi info =
     (let sl = slices info ! 0
      in case get_char_candidates gi sl of
           None \<Rightarrow> Inl NullPointerDereference
         | Some candidates \<Rightarrow>
             if roaring_is_empty candidates then Inr ([], 0)
             else
               (let result =
                  (if \<not> starts_with_percent info \<and> \<not> ends_with_percent info then
                     (let exact_length = pattern_length_with_underscores sl;
                          result = match_at_pos gi sl 0
                      in if exact_length < max_length (length_idx gi) then
                           (case length_bitmaps (length_idx gi) ! exact_length of
                              Some bm \<Rightarrow> roaring_and result bm
                            | None \<Rightarrow> roaring_create)
                         else roaring_create)
                   else if \<not> starts_with_percent info \<and> ends_with_percent info then
                     roaring_and (match_at_pos gi sl 0) candidates
                   else if starts_with_percent info \<and> \<not> ends_with_percent info then
                     roaring_and (match_at_neg_pos gi sl 0) candidates
                   else
                     (let (cand_indices, cand_count) = roaring_to_array candidates
                      in fold (\<lambda>i result.
                                 let idx = cand_indices ! i
                                 in if contains_substring (data gi ! idx) sl
                                    then roaring_add result idx else result)
                              [0..<cand_count] roaring_create))
                in Inr (roaring_to_array result)))"

text \<open>The multi-slice branch after the candidate loop.\<close>

definition multi_slice_finish ::
  "RoaringIndex \<Rightarrow> PatternInfo \<Rightarrow> nat \<Rightarrow> RoaringBitmap \<Rightarrow> error + nat list \<times> nat" where
  "multi_slice_finish gi info min_len candidates =
     (let temp = get_length_range gi (int min_len) (-1);
          result = roaring_and candidates temp
      in if roaring_is_empty result then Inr ([], 0)
         else
           (let result1 =
              (if \<not> starts_with_percent info
               then roaring_and result (match_at_pos gi (slices info ! 0) 0) else result)
            in if \<not> starts_with_percent info \<and> roaring_is_empty result1 then Inr ([], 0)
               else
                 (let result2 =
                    (if \<not> ends_with_percent info
                     then roaring_and result1
                            (match_at_neg_pos gi (slices info ! (length (slices info) - 1)) 0)
                     else result1)
                  in if \<not> ends_with_percent info \<and> roaring_is_empty result2 then Inr ([], 0)
                     else Inr (roaring_to_array (verify_multislice_pattern gi result2 info)))))"

text \<open>
  The candidate loop of the multi-slice branch, over the slices still to visit.
  \<open>roaring_and(candidates, temp)\<close> and \<open>roaring_is_empty(candidates)\<close> read through
  their arguments, which are \<open>NULL\<close> when \<open>get_char_candidates\<close> found no literal
  byte in the slice.
\<close>

fun multi_slice_candidates ::
  "RoaringIndex \<Rightarrow> PatternInfo \<Rightarrow> nat \<Rightarrow> string list \<Rightarrow> RoaringBitmap option
    \<Rightarrow> error + nat list \<times> nat" where
  "multi_slice_candidates gi info min_len [] candidates =
     (case candidates of
        None \<Rightarrow> Inl NullPointerDereference
      | Some c \<Rightarrow> multi_slice_finish gi info min_len c)"
| "multi_slice_candidates gi info min_len (sl # rest) candidates =
     (let temp = get_char_candidates gi sl
      in case (case candidates of
                 None \<Rightarrow> Inr temp
               | Some c \<Rightarrow>
                   (case temp of
                      None \<Rightarrow> Inl NullPointerDereference
                    | Some t \<Rightarrow> Inr (Some (roaring_and c t)))) of
           Inl e \<Rightarrow> Inl e
         | Inr None \<Rightarrow> Inl NullPointerDereference
         | Inr (Some c') \<Rightarrow>
             if roaring_is_empty c' then Inr ([], 0)
             else multi_slice_candidates gi info min_len rest (Some c'))"

definition query_multi_slice :: "RoaringIndex \<Rightarrow> PatternInfo \<Rightarrow> error + nat list \<times> nat" where
  "query_multi_slice gi info =
     (let min_len = fold (\<lambda>sl min_len. min_len + pattern_length_with_underscores sl) (slices info) 0
      in multi_slice_candidates gi info min_len (slices info) None)"

text \<open>\<open>optimized_query\<close> returns the array of matching ids (\<open>NULL\<close> is the empty
  list) and stores its length through \<open>result_count\<close>.\<close>

definition optimized_query :: "RoaringIndex \<Rightarrow> string \<Rightarrow> error + nat list \<times> nat" where
  "optimized_query gi pattern =
     (if pattern = ''%'' then Inr (all_records gi)
      else
        (case scan_wildcards pattern 0 False of
           (only_wildcards, underscore_count, has_percent) \<Rightarrow>
             if only_wildcards then
               (let result =
                  (if \<not> has_percent then
                     (if underscore_count < max_length (length_idx gi) then
                        (case length_bitmaps (length_idx gi) ! underscore_count of
                           Some bm \<Rightarrow> roaring_copy bm
                         | None \<Rightarrow> roaring_create)
                      else roaring_create)
                   else get_length_range gi (int underscore_count) (-1))
                in Inr (roaring_to_array result))
             else
               (let info = analyze_pattern pattern
                in if length (slices info) = 0 then Inr (all_records gi)
                   else if length (slices info) = 1 then query_single_slice gi info
                   else query_multi_slice gi info)))"

section \<open>Building the index\<close>

text \<open>
  \<open>build_optimized_index\<close> reads the rows of the column through SPI; the model takes
  them as a list, \<open>None\<close> for an SQL \<open>NULL\<close>.  The bitmap of an entry is updated in
  place through the pointer the lookup returned; the model stores the updated bitmap
  back into the same entry.
\<close>

definition index_add_pos :: "RoaringIndex \<Rightarrow> char \<Rightarrow> int \<Rightarrow> nat \<Rightarrow> RoaringIndex" where
  "index_add_pos gi uch p idx =
     (case get_pos_bitmap gi uch p of
        None \<Rightarrow> set_pos_bitmap gi uch p (roaring_add roaring_create idx)
      | Some existing_bm \<Rightarrow> set_pos_bitmap gi uch p (roaring_add existing_bm idx))"

definition index_add_neg :: "RoaringIndex \<Rightarrow> char \<Rightarrow> int \<Rightarrow> nat \<Rightarrow> RoaringIndex" where
  "index_add_neg gi uch neg_offset idx =
     (case get_neg_bitmap gi uch neg_offset of
        None \<Rightarrow> set_neg_bitmap gi uch neg_offset (roaring_add roaring_create idx)
      | Some existing_bm \<Rightarrow> set_neg_bitmap gi uch neg_offset (roaring_add existing_bm idx))"

definition index_record :: "RoaringIndex \<Rightarrow> nat \<Rightarrow> string option \<Rightarrow> RoaringIndex" where
  "index_record gi idx row =
     (case row of
        None \<Rightarrow> gi\<lparr>data := (data gi)[idx := []]\<rparr>
      | Some str \<Rightarrow>
          (let len = (if length str > MAX_POSITIONS then MAX_POSITIONS else length str);
               gi1 = gi\<lparr>data := (data gi)[idx := str]\<rparr>;
               gi2 = (if len > max_len gi1 then gi1\<lparr>max_len := len\<rparr> else gi1)
           in fold (\<lambda>p g.
                      index_add_neg (index_add_pos g (str ! p) (int p) idx)
                        (str ! (len - 1 - p)) (- (1 + int p)) idx)
                   [0..<len] gi2))"

text \<open>The character-anywhere cache: for every byte with at least one position entry,
  the union of the bitmaps of its entries.\<close>

definition build_char_cache :: "RoaringIndex \<Rightarrow> RoaringIndex" where
  "build_char_cache gi =
     gi\<lparr>char_cache :=
          (\<lambda>ch_idx. case pos_idx gi ch_idx of
                       [] \<Rightarrow> None
                     | e # es \<Rightarrow>
                         Some (fold (\<lambda>e' new_bm. roaring_or new_bm (bitmap e')) es
                                 (roaring_copy (bitmap e))))\<rparr>"

definition build_length_index :: "RoaringIndex \<Rightarrow> RoaringIndex" where
  "build_length_index gi =
     (let ml = max_len gi + 1
      in gi\<lparr>length_idx :=
              \<lparr>length_bitmaps =
                 fold (\<lambda>idx lbs.
                         let len = length (data gi ! idx)
                         in if len \<ge> ml then lbs
                            else lbs[len := Some (roaring_add
                                   (case lbs ! len of None \<Rightarrow> roaring_create | Some bm \<Rightarrow> bm) idx)])
                      [0..<num_records gi] (replicate ml None),
               max_length = ml\<rparr>\<rparr>)"

definition empty_index :: "nat \<Rightarrow> RoaringIndex" where
  "empty_index n =
     \<lparr>pos_idx = (\<lambda>_. []), neg_idx = (\<lambda>_. []), char_cache = (\<lambda>_. None),
      length_idx = \<lparr>length_bitmaps = [], max_length = 0\<rparr>,
      data = replicate n [], num_records = n, max_len = 0\<rparr>"

definition build_optimized_index :: "string option list \<Rightarrow> RoaringIndex" where
  "build_optimized_index rows =
     build_length_index (build_char_cache
       (fold (\<lambda>idx gi. index_record gi idx (rows ! idx)) [0..<length rows]
          (empty_index (length rows))))"

section \<open>The SQL entry points\<close>

text \<open>
  \<open>global_index\<close> is \<open>NULL\<close> until \<open>build_optimized_index\<close> has run; the entry
  points take it as an optional index.  \<open>optimized_like_query\<close> returns the
  messages it logged at \<open>WARNING\<close> level and the count; \<open>optimized_like_query_rows\<close>
  returns the rows it emits over its successive calls.
\<close>

definition optimized_like_query :: "RoaringIndex option \<Rightarrow> string \<Rightarrow> error + string list \<times> nat" where
  "optimized_like_query global_index pattern =
     (case global_index of
        None \<Rightarrow> Inr ([''Index not built. Call build_optimized_index() first.''], 0)
      | Some gi \<Rightarrow>
          (case optimized_query gi pattern of
             Inl e \<Rightarrow> Inl e
           | Inr (results, result_count) \<Rightarrow> Inr ([], result_count)))"

definition optimized_like_query_rows :: "RoaringIndex option \<Rightarrow> string \<Rightarrow> error + (nat \<times> string) list" where
  "optimized_like_query_rows global_index pattern =
     (case global_index of
        None \<Rightarrow> Inr []
      | Some gi \<Rightarrow>
          (case optimized_query gi pattern of
             Inl e \<Rightarrow> Inl e
           | Inr (matches, result_count) \<Rightarrow>
               Inr (map (\<lambda>call_cntr. let row_idx = matches ! call_cntr
                                      in (row_idx, data gi ! row_idx))
                        [0..<result_count])))"

section \<open>The pattern verifier\<close>

text \<open>
  A C string is modelled as the list of its bytes before the terminating NUL, so
  \<open>strlen\<close> is \<open>length\<close> and \<open>p[i]\<close> is \<open>p ! nat i\<close> for \<open>0 \<le> i < plen\<close>, the only
  indices the code reads.  The counters \<open>si\<close>, \<open>pi\<close>, \<open>star\<close> and \<open>match\<close> are C
  \<open>int\<close>s (\<open>star = -1\<close> is the "no percent seen" sentinel); they stay below the
  lengths of the two strings, so they are modelled as unbounded integers.
\<close>

text \<open>The trailing loop of \<open>match_pattern\<close>: \<open>while (pi < plen && p[pi] == '%') pi++;\<close>\<close>

function skip_percent :: "string \<Rightarrow> int \<Rightarrow> int" where
  "skip_percent p pi =
     (if pi < int (length p) \<and> p ! nat pi = CHR ''%''
      then skip_percent p (pi + 1) else pi)"
  by pat_completeness auto
termination
  by (relation "measure (\<lambda>(p, pi). nat (int (length p) - pi))") auto

declare skip_percent.simps [simp del]

text \<open>
  The main loop of \<open>match_pattern\<close> (\<open>while (si < slen) ...\<close>) followed by the trailing
  loop and the final test.  The loop is not obviously terminating (the third branch
  moves \<open>si\<close> backwards), so it is a partial function: \<open>None\<close> stands for a run that
  never returns.
\<close>

partial_function (option) match_loop ::
  "string \<Rightarrow> string \<Rightarrow> int \<Rightarrow> int \<Rightarrow> int \<Rightarrow> int \<Rightarrow> bool option" where
  "match_loop s p si pi star mtch =
     (if si < int (length s) then
        (if pi < int (length p) \<and> (p ! nat pi = s ! nat si \<or> p ! nat pi = CHR ''_'')
         then match_loop s p (si + 1) (pi + 1) star mtch
         else if pi < int (length p) \<and> p ! nat pi = CHR ''%''
         then match_loop s p si (pi + 1) pi si
         else if star \<noteq> -1
         then match_loop s p (mtch + 1) (star + 1) star (mtch + 1)
         else Some False)
      else Some (skip_percent p pi = int (length p)))"

declare match_loop.simps [code]

definition match_pattern :: "string \<Rightarrow> string \<Rightarrow> bool option" where
  "match_pattern s p = match_loop s p 0 0 (-1) 0"

section \<open>The sets behind the index\<close>

text \<open>
  Auxiliary notions for stating what the build stores: the value the build keeps for
  a row, the number of its bytes that are indexed, and the sets of identifiers that
  the lookups of the query see (\<open>NULL\<close> and an out-of-range slot read as the
  empty set, the way the query code guards them).
\<close>

definition row_value :: "string option \<Rightarrow> string" where
  "row_value row = (case row of None \<Rightarrow> [] | Some str \<Rightarrow> str)"

definition indexed_len :: "string \<Rightarrow> nat" where
  "indexed_len str = (if length str > MAX_POSITIONS then MAX_POSITIONS else length str)"

definition pos_ids :: "RoaringIndex \<Rightarrow> char \<Rightarrow> int \<Rightarrow> nat set" where
  "pos_ids gi ch p = (case get_pos_bitmap gi ch p of None \<Rightarrow> {} | Some bm \<Rightarrow> ids_of bm)"

definition neg_ids :: "RoaringIndex \<Rightarrow> char \<Rightarrow> int \<Rightarrow> nat set" where
  "neg_ids gi ch p = (case get_neg_bitmap gi ch p of None \<Rightarrow> {} | Some bm \<Rightarrow> ids_of bm)"

definition length_ids :: "RoaringIndex \<Rightarrow> nat \<Rightarrow> nat set" where
  "length_ids gi k =
     (if k < max_length (length_idx gi) then
        (case length_bitmaps (length_idx gi) ! k of None \<Rightarrow> {} | Some bm \<Rightarrow> ids_of bm)
      else {})"

text \<open>The position loop of one record.\<close>

definition index_positions :: "string \<Rightarrow> nat \<Rightarrow> nat \<Rightarrow> nat \<Rightarrow> RoaringIndex \<Rightarrow> RoaringIndex" where
  "index_positions str len idx n gi =
     fold (\<lambda>p g. index_add_neg (index_add_pos g (str ! p) (int p) idx)
                    (str ! (len - 1 - p)) (- (1 + int p)) idx) [0..<n] gi"

text \<open>The index after the first \<open>n\<close> rows have been read.\<close>

definition records_indexed :: "string option list \<Rightarrow> nat \<Rightarrow> RoaringIndex" where
  "records_indexed rows n =
     fold (\<lambda>idx gi. index_record gi idx (rows ! idx)) [0..<n] (empty_index (length rows))"



text \<open>The array of length bitmaps after the first \<open>j\<close> records.\<close>

definition length_loop :: "RoaringIndex \<Rightarrow> nat \<Rightarrow> RoaringBitmap option list" where
  "length_loop gi j =
     fold (\<lambda>idx lbs.
             let len = length (data gi ! idx)
             in if len \<ge> max_len gi + 1 then lbs
                else lbs[len := Some (roaring_add
                       (case lbs ! len of None \<Rightarrow> roaring_create | Some bm \<Rightarrow> bm) idx)])
          [0..<j] (replicate (max_len gi + 1) None)"

definition slot_ids :: "RoaringBitmap option \<Rightarrow> nat set" where
  "slot_ids slot = (case slot of None \<Rightarrow> {} | Some bm \<Rightarrow> ids_of bm)"

section \<open>What a query answers\<close>

text \<open>The accumulator of the match loops read as a set: while \<open>result\<close> is still
  \<open>NULL\<close> nothing has been excluded.\<close>

definition opt_ids :: "RoaringBitmap option \<Rightarrow> nat set" where
  "opt_ids result = (case result of None \<Rightarrow> UNIV | Some r \<Rightarrow> ids_of r)"





text \<open>The bytes of a slice that \<open>get_char_candidates\<close> still has to look up.\<close>

definition literal_bytes :: "string \<Rightarrow> (char \<Rightarrow> bool) \<Rightarrow> char set" where
  "literal_bytes cs seen = {c \<in> set cs. c \<noteq> CHR ''_'' \<and> c \<noteq> CHR ''%'' \<and> \<not> seen c}"

text \<open>The positional filters of the multi-slice branch: the first slice at the start unless
  the pattern starts with \<open>%\<close>, the last slice at the end unless it ends with \<open>%\<close>.\<close>

definition anchor_ids :: "RoaringIndex \<Rightarrow> PatternInfo \<Rightarrow> nat set" where
  "anchor_ids gi info =
     (if \<not> starts_with_percent info then ids_of (match_at_pos gi (slices info ! 0) 0) else UNIV) \<inter>
     (if \<not> ends_with_percent info
      then ids_of (match_at_neg_pos gi (slices info ! (length (slices info) - 1)) 0) else UNIV)"

text \<open>The ids the multi-slice branch returns from the candidate set \<open>C\<close>.\<close>

definition multi_answer :: "RoaringIndex \<Rightarrow> PatternInfo \<Rightarrow> nat \<Rightarrow> nat set \<Rightarrow> nat set" where
  "multi_answer gi info min_len C =
     {idx \<in> C \<inter> ids_of (get_length_range gi (int min_len) (- 1)) \<inter> anchor_ids gi info.
        find_slices (data gi ! idx) (slices info)}"




text \<open>The meaning of a pattern, byte by byte: \<open>%\<close> stands for any run of bytes (the
  empty one too), \<open>_\<close> for any one byte, and every other byte for itself.\<close>

fun like_match :: "string \<Rightarrow> string \<Rightarrow> bool" where
  "like_match s [] = (s = [])"
| "like_match s (p # ps) =
     (if p = CHR ''%'' then (\<exists>k\<le>length s. like_match (drop k s) ps)
      else (case s of [] \<Rightarrow> False | c # cs \<Rightarrow> (p = CHR ''_'' \<or> c = p) \<and> like_match cs ps))"

section \<open>Bitmaps as sets of identifiers\<close>

lemma odd_dec: fixes w :: "'a::len word" assumes "odd w" shows "w - 1 = 2 * (w div 2)"
proof -
  have "w div 2 * 2 + w mod 2 = w" by (rule div_mult_mod_eq)
  moreover have "w mod 2 = 1" using assms by (simp add: odd_iff_mod_2_eq_one)
  ultimately have "2 * (w div 2) + 1 = w" by (simp add: mult.commute)
  then have "w - 1 = 2 * (w div 2) + 1 - 1" by simp
  then show ?thesis by simp
qed

lemma even_dec: fixes w :: "'a::len word" assumes "even w" shows "w - 1 = 1 + 2 * (w div 2 - 1)"
proof -
  have "w div 2 * 2 + w mod 2 = w" by (rule div_mult_mod_eq)
  moreover have "w mod 2 = 0" using assms by (simp add: even_iff_mod_2_eq_zero)
  ultimately have "2 * (w div 2) = w" by (simp add: mult.commute)
  then have "w - 1 = 2 * (w div 2) - 1" by simp
  then show ?thesis by (simp add: algebra_simps)
qed

lemma low_bit_minus_one:
  fixes w :: "'a::len word"
  assumes "bit w k" "\<forall>m<k. \<not> bit w m"
  shows "\<not> bit (w - 1) k \<and> (\<forall>n>k. bit (w - 1) n = bit w n)"
  using assms
proof (induction k arbitrary: w)
  case 0
  then have "odd w" by (simp add: bit_0)
  then have e: "w - 1 = 2 * (w div 2)" by (rule odd_dec)
  have "bit (2 * (w div 2)) n = bit w n" if npos: "n > 0" for n
  proof -
    obtain j where j: "n = Suc j" using npos by (cases n) auto
    have d: "bit (2 * (w div 2)) (Suc j) \<longleftrightarrow>
        bit (w div 2) j \<and> possible_bit TYPE('a word) (Suc j)"
      by (auto simp add: bit_double_iff)
    have s: "bit w (Suc j) \<longleftrightarrow> bit (w div 2) j" by (simp add: bit_Suc)
    show ?thesis using bit_imp_possible_bit [of w "Suc j"] unfolding j d s by blast
  qed
  then show ?case by (simp add: e bit_double_iff)
next
  case (Suc k)
  have ev: "even w" using Suc.prems(2) by (auto simp: bit_0)
  let ?a = "w div 2"
  have e: "w - 1 = 1 + 2 * (?a - 1)" using ev by (rule even_dec)
  have a1: "bit ?a k" using Suc.prems(1) by (simp add: bit_Suc)
  have a2: "\<forall>m<k. \<not> bit ?a m" using Suc.prems(2) by (auto simp: bit_Suc [symmetric])
  from Suc.IH [OF a1 a2]
  have ih1: "\<not> bit (?a - 1) k" and ih2: "\<And>n. n > k \<Longrightarrow> bit (?a - 1) n = bit ?a n" by auto
  have up0: "bit (1 + 2 * x) (Suc j) = (bit x j \<and> possible_bit TYPE('a word) (Suc j))"
    for x :: "'a word" and j
  proof -
    have "bit (1 + 2 * x) (Suc j) = bit (2 * x) (Suc j)" by (simp add: bit_sum_mult_2_cases)
    also have "\<dots> = (bit x j \<and> possible_bit TYPE('a word) (Suc j))"
      by (auto simp add: bit_double_iff)
    finally show ?thesis .
  qed
  have up: "bit (w - 1) (Suc j) = (bit (?a - 1) j \<and> possible_bit TYPE('a word) (Suc j))" for j
    by (subst e) (rule up0)
  have "\<not> bit (w - 1) (Suc k)" using ih1 by (simp add: up)
  moreover have "bit (w - 1) n = bit w n" if nk: "n > Suc k" for n
  proof -
    obtain j where j: "n = Suc j" "j > k" using nk by (cases n) auto
    have s: "bit w (Suc j) \<longleftrightarrow> bit (w div 2) j" by (simp add: bit_Suc)
    show ?thesis using ih2 [OF j(2)] bit_imp_possible_bit [of w "Suc j"]
      unfolding j(1) up s by blast
  qed
  ultimately show ?case by blast
qed

lemma word64_bit_lt: "bit (w :: 64 word) n \<Longrightarrow> n < 64"
  using bit_imp_le_length [of w n] by simp

lemma word64_nonzero_bit: assumes "(w :: 64 word) \<noteq> 0" shows "\<exists>n<64. bit w n"
proof (rule ccontr)
  assume "\<not> ?thesis"
  then have "\<forall>n. \<not> bit w n" using word64_bit_lt by blast
  then have "w = 0" by (simp add: bit_eq_iff)
  then show False using assms by simp
qed

lemma ctzll_lt: assumes "w \<noteq> 0" shows "ctzll w < 64"
proof -
  obtain n where n: "n < 64" "bit w n" using word64_nonzero_bit [OF assms] by blast
  have "length (takeWhile (\<lambda>n. \<not> bit w n) [0..<64]) \<le> n"
  proof (rule ccontr)
    assume "\<not> ?thesis"
    then have "n < length (takeWhile (\<lambda>n. \<not> bit w n) [0..<64])" by simp
    then have "takeWhile (\<lambda>n. \<not> bit w n) [0..<64] ! n \<in> set (takeWhile (\<lambda>n. \<not> bit w n) [0..<64])"
      by (rule nth_mem)
    moreover have "takeWhile (\<lambda>n. \<not> bit w n) [0..<64] ! n = [0..<64] ! n"
      using \<open>n < length _\<close> by (rule takeWhile_nth)
    ultimately show False using n by (auto dest: set_takeWhileD)
  qed
  then show ?thesis using n by (simp add: ctzll_def)
qed

lemma ctzll_bit: assumes "w \<noteq> 0" shows "bit w (ctzll w)"
proof -
  have "ctzll w < length [0..<64::nat]" using ctzll_lt [OF assms] by simp
  then have "\<not> \<not> bit w ([0..<64] ! ctzll w)"
    unfolding ctzll_def by (rule nth_length_takeWhile)
  then show ?thesis using ctzll_lt [OF assms] by simp
qed

lemma ctzll_least: assumes "m < ctzll w" shows "\<not> bit w m"
proof -
  let ?t = "takeWhile (\<lambda>n. \<not> bit w n) [0..<64]"
  have m: "m < length ?t" using assms by (simp add: ctzll_def)
  then have "?t ! m \<in> set ?t" by (rule nth_mem)
  moreover have "?t ! m = [0..<64] ! m" using m by (rule takeWhile_nth)
  moreover have "m < 64" using m length_takeWhile_le [of "\<lambda>n. \<not> bit w n" "[0..<64]"] by simp
  ultimately show ?thesis by (auto dest: set_takeWhileD)
qed

lemma bit_and_dec:
  fixes w :: "64 word"
  assumes "w \<noteq> 0"
  shows "bit (w AND (w - 1)) n \<longleftrightarrow> bit w n \<and> n \<noteq> ctzll w"
proof -
  have l: "\<not> bit (w - 1) (ctzll w) \<and> (\<forall>n>ctzll w. bit (w - 1) n = bit w n)"
    by (rule low_bit_minus_one) (use assms in \<open>auto simp: ctzll_bit ctzll_least\<close>)
  consider "n < ctzll w" | "n = ctzll w" | "n > ctzll w" by linarith
  then show ?thesis
    using l by cases (auto simp: bit_and_iff ctzll_least)
qed

lemma block_to_array_set:
  "set (block_to_array base bits) = {base + n | n. bit bits n}"
proof (induction base bits rule: block_to_array.induct)
  case (1 base bits)
  show ?case
  proof (cases "bits = 0")
    case True
    then show ?thesis by (subst block_to_array.simps) simp
  next
    case False
    have "set (block_to_array base bits) =
        insert (base + ctzll bits) (set (block_to_array base (bits AND (bits - 1))))"
      using False by (subst block_to_array.simps) simp
    also have "\<dots> = insert (base + ctzll bits) {base + n | n. bit (bits AND (bits - 1)) n}"
      using 1 [OF False] by simp
    also have "\<dots> = {base + n | n. bit bits n}"
      using ctzll_bit [OF False] by (auto simp: bit_and_dec [OF False])
    finally show ?thesis .
  qed
qed

lemma block_to_array_sorted: "sorted_wrt (<) (block_to_array base bits)"
proof (induction base bits rule: block_to_array.induct)
  case (1 base bits)
  show ?case
  proof (cases "bits = 0")
    case True
    then show ?thesis by (subst block_to_array.simps) simp
  next
    case False
    have "base + ctzll bits < x" if x: "x \<in> set (block_to_array base (bits AND (bits - 1)))" for x
    proof -
      obtain n where n: "x = base + n" "bit bits n" "n \<noteq> ctzll bits"
        using x by (auto simp: block_to_array_set bit_and_dec [OF False])
      have "\<not> n < ctzll bits" using n(2) ctzll_least by blast
      then show ?thesis using n by simp
    qed
    then show ?thesis using 1 [OF False] False by (subst block_to_array.simps) auto
  qed
qed

lemma length_filter_remove1:
  "distinct xs \<Longrightarrow> k \<in> set xs \<Longrightarrow> P k \<Longrightarrow>
   Suc (length (filter (\<lambda>x. P x \<and> x \<noteq> k) xs)) = length (filter P xs)"
proof (induction xs)
  case Nil
  then show ?case by simp
next
  case (Cons x xs)
  show ?case
  proof (cases "x = k")
    case True
    then have "k \<notin> set xs" using Cons.prems(1) by simp
    then have "filter (\<lambda>x. P x \<and> x \<noteq> k) xs = filter P xs"
      by (intro filter_cong) auto
    then show ?thesis using True Cons.prems(3) by simp
  next
    case False
    then show ?thesis using Cons by auto
  qed
qed

lemma popcountll_and_dec:
  assumes "w \<noteq> 0" shows "Suc (popcountll (w AND (w - 1))) = popcountll w"
proof -
  have "Suc (length (filter (\<lambda>x. bit w x \<and> x \<noteq> ctzll w) [0..<64])) = length (filter (bit w) [0..<64])"
    by (rule length_filter_remove1) (use assms in \<open>auto simp: ctzll_bit ctzll_lt\<close>)
  moreover have "bit (w AND (w - 1)) = (\<lambda>x. bit w x \<and> x \<noteq> ctzll w)"
    by (rule ext) (rule bit_and_dec [OF assms])
  ultimately show ?thesis by (simp add: popcountll_def)
qed

lemma length_block_to_array: "length (block_to_array base bits) = popcountll bits"
proof (induction base bits rule: block_to_array.induct)
  case (1 base bits)
  show ?case
  proof (cases "bits = 0")
    case True
    then show ?thesis by (subst block_to_array.simps) (simp add: popcountll_def)
  next
    case False
    then show ?thesis using 1 [OF False] popcountll_and_dec [OF False]
      by (subst block_to_array.simps) simp
  qed
qed

lemma ids_of_create [simp]: "ids_of roaring_create = {}"
  by (simp add: ids_of_def roaring_create_def)

lemma ids_of_Nil [simp]: "ids_of [] = {}"
  by (simp add: ids_of_def)

lemma ids_of_copy [simp]: "ids_of (roaring_copy rb) = ids_of rb"
  by (simp add: roaring_copy_def roaring_create_def)

lemma roaring_copy_eq [simp]: "roaring_copy rb = rb"
  by (simp add: roaring_copy_def roaring_create_def)

lemma bit_or_single: "b < 64 \<Longrightarrow> bit ((w :: 64 word) OR 2 ^ b) n \<longleftrightarrow> bit w n \<or> n = b"
  by (auto simp: bit_or_iff bit_exp_iff)

lemma ids_of_add [simp]: "ids_of (roaring_add rb v) = insert v (ids_of rb)"
proof -
  let ?blk = "v div 64" and ?b = "v mod 64"
  let ?blocks = "if ?blk \<ge> length rb then rb @ replicate (?blk + 1 - length rb) 0 else rb"
  have len: "?blk < length ?blocks" by auto
  have old: "u div 64 < length ?blocks \<and> bit (?blocks ! (u div 64)) (u mod 64) \<longleftrightarrow>
             u div 64 < length rb \<and> bit (rb ! (u div 64)) (u mod 64)" for u
    by (auto simp: nth_append)
  have "u \<in> ids_of (roaring_add rb v) \<longleftrightarrow> u \<in> insert v (ids_of rb)" for u
  proof (cases "u div 64 = ?blk")
    case True
    have "u = v \<longleftrightarrow> u mod 64 = ?b" using True by (metis div_mult_mod_eq)
    then show ?thesis
      using True len old [of u]
      by (auto simp: ids_of_def roaring_add_def Let_def bit_or_single nth_append)
  next
    case False
    then have "u \<noteq> v" by auto
    then show ?thesis
      using False old [of u]
      by (auto simp: ids_of_def roaring_add_def Let_def nth_append)
  qed
  then show ?thesis by blast
qed

lemma ids_of_and [simp]: "ids_of (roaring_and a b) = ids_of a \<inter> ids_of b"
  by (auto simp: ids_of_def roaring_and_def roaring_create_def Let_def bit_and_iff)

lemma ids_of_or [simp]: "ids_of (roaring_or a b) = ids_of a \<union> ids_of b"
  by (auto simp: ids_of_def roaring_or_def roaring_create_def Let_def bit_or_iff nth_append)


lemma block_to_array_zero [simp]: "block_to_array base 0 = []"
  by (subst block_to_array.simps) simp

lemma blocks_to_array_Suc:
  "blocks_to_array rb (Suc k) = blocks_to_array rb k @ block_to_array (k * 64) (rb ! k)"
  by (simp add: blocks_to_array_def)

lemma blocks_to_array_set:
  "set (blocks_to_array rb k) = {v. v div 64 < k \<and> bit (rb ! (v div 64)) (v mod 64)}"
proof (induction k)
  case 0
  then show ?case by (simp add: blocks_to_array_def)
next
  case (Suc k)
  have "v \<in> {k * 64 + n | n. bit (rb ! k) n} \<longleftrightarrow>
        v div 64 = k \<and> bit (rb ! (v div 64)) (v mod 64)" for v
  proof
    assume "v \<in> {k * 64 + n | n. bit (rb ! k) n}"
    then obtain n where n: "v = k * 64 + n" "bit (rb ! k) n" by auto
    then show "v div 64 = k \<and> bit (rb ! (v div 64)) (v mod 64)"
      using word64_bit_lt [of "rb ! k" n] by simp
  next
    assume a: "v div 64 = k \<and> bit (rb ! (v div 64)) (v mod 64)"
    have "v = v div 64 * 64 + v mod 64" by simp
    then have "v = k * 64 + v mod 64" using a by simp
    then show "v \<in> {k * 64 + n | n. bit (rb ! k) n}" using a by blast
  qed
  then have "{k * 64 + n | n. bit (rb ! k) n} =
      {v. v div 64 = k \<and> bit (rb ! (v div 64)) (v mod 64)}"
    by blast
  then show ?case
    by (auto simp: blocks_to_array_Suc Suc.IH block_to_array_set less_Suc_eq)
qed

lemma blocks_to_array_sorted: "sorted_wrt (<) (blocks_to_array rb k)"
proof (induction k)
  case 0
  then show ?case by (simp add: blocks_to_array_def)
next
  case (Suc k)
  have "x < y" if "x \<in> set (blocks_to_array rb k)" "y \<in> set (block_to_array (k * 64) (rb ! k))" for x y
  proof -
    have "x div 64 < k" using that(1) by (simp add: blocks_to_array_set)
    moreover have "k * 64 \<le> y" using that(2) by (auto simp: block_to_array_set)
    ultimately show ?thesis by (simp add: div_less_iff_less_mult)
  qed
  then show ?case
    by (auto simp: blocks_to_array_Suc sorted_wrt_append Suc.IH block_to_array_sorted)
qed

lemma length_blocks_to_array:
  "k \<le> length rb \<Longrightarrow> length (blocks_to_array rb k) = sum_list (map popcountll (take k rb))"
proof (induction k)
  case 0
  then show ?case by (simp add: blocks_to_array_def)
next
  case (Suc k)
  then show ?case
    by (simp add: blocks_to_array_Suc length_block_to_array take_Suc_conv_app_nth)
qed

lemma roaring_to_array_eq:
  "roaring_to_array rb =
     (if roaring_count rb = 0 then ([], 0) else (blocks_to_array rb (length rb), roaring_count rb))"
proof -
  have "(\<lambda>i. let bits = rb ! i in if bits = 0 then [] else block_to_array (i * 64) bits) =
        (\<lambda>i. block_to_array (i * 64) (rb ! i))"
    by (rule ext) (simp add: Let_def)
  then show ?thesis by (simp add: roaring_to_array_def Let_def blocks_to_array_def)
qed

lemma roaring_count_eq: "roaring_count rb = length (blocks_to_array rb (length rb))"
  by (simp add: roaring_count_def length_blocks_to_array)


lemma roaring_to_array_count: "snd (roaring_to_array rb) = length (fst (roaring_to_array rb))"
  by (simp add: roaring_to_array_eq roaring_count_eq)


lemma roaring_to_array_sorted: "sorted_wrt (<) (fst (roaring_to_array rb))"
  by (simp add: roaring_to_array_eq blocks_to_array_sorted)

section \<open>Termination of the verifier\<close>

lemma match_loop_total: "\<exists>b. match_loop s p si pi star mtch = Some b"
  using wf_measures [of "[fst, snd]"]
proof (induction "(nat (int (length s) - min mtch si), nat (int (length p) - pi))"
    arbitrary: si pi star mtch rule: wf_induct_rule)
  case less
  show ?case
  proof (cases "si < int (length s)")
    case False
    then show ?thesis by (subst match_loop.simps) simp
  next
    case in_s: True
    let ?lit = "pi < int (length p) \<and> (p ! nat pi = s ! nat si \<or> p ! nat pi = CHR ''_'')"
    let ?pct = "pi < int (length p) \<and> p ! nat pi = CHR ''%''"
    consider (lit) "?lit" | (pct) "\<not> ?lit \<and> ?pct"
      | (retry) "\<not> ?lit \<and> \<not> ?pct \<and> star \<noteq> -1"
      | (stop) "\<not> ?lit \<and> \<not> ?pct \<and> star = -1"
      by blast
    then show ?thesis
    proof cases
      case lit
      have "\<exists>b. match_loop s p (si + 1) (pi + 1) star mtch = Some b"
        by (rule less) (use lit in_s in \<open>auto simp: min_def\<close>)
      then show ?thesis using lit in_s by (subst match_loop.simps) auto
    next
      case pct
      have "\<exists>b. match_loop s p si (pi + 1) pi si = Some b"
        by (rule less) (use pct in_s in \<open>auto simp: min_def\<close>)
      then show ?thesis using pct in_s by (subst match_loop.simps) auto
    next
      case retry
      have "\<exists>b. match_loop s p (mtch + 1) (star + 1) star (mtch + 1) = Some b"
        by (rule less) (use retry in_s in \<open>auto simp: min_def\<close>)
      then show ?thesis using retry in_s by (subst match_loop.simps) auto
    next
      case stop
      then show ?thesis using in_s by (subst match_loop.simps) auto
    qed
  qed
qed

text \<open>
  C10.  The match probe is total: for every value \<open>s\<close> and every pattern \<open>p\<close> the
  backtracking matcher terminates and returns a boolean.
\<close>

theorem match_pattern_total: "\<exists>b. match_pattern s p = Some b"
  unfolding match_pattern_def by (rule match_loop_total)

section \<open>Queries before the index is built\<close>

text \<open>
  C7 (as stated).  With no index published, the count query and the rows query do not
  fail: for the pattern \<open>a%\<close> the first returns the count 0 after logging a warning and
  the second returns the empty row set.
\<close>

theorem no_index_query_counterexample:
  "optimized_like_query None ''a%'' =
     Inr ([''Index not built. Call build_optimized_index() first.''], 0) \<and>
   optimized_like_query_rows None ''a%'' = Inr []"
  by (simp add: optimized_like_query_def optimized_like_query_rows_def)

text \<open>
  C7 (amended).  With no index published, every count query logs the warning
  "Index not built. Call build_optimized_index() first." and returns the count 0, and
  every rows query returns the empty row set; neither raises an error.
\<close>

theorem no_index_query_returns_empty:
  "optimized_like_query None pattern =
     Inr ([''Index not built. Call build_optimized_index() first.''], 0) \<and>
   optimized_like_query_rows None pattern = Inr []"
  by (simp add: optimized_like_query_def optimized_like_query_rows_def)

section \<open>A slice made of underscores in a multi-slice pattern\<close>

lemma get_char_candidates_loop_underscores:
  "set sl \<subseteq> {CHR ''_''} \<Longrightarrow> get_char_candidates_loop gi sl seen result = result"
  by (induction sl) auto

text \<open>
  C4.  On the pattern \<open>__%a\<close> the first slice has no literal byte,
  \<open>get_char_candidates\<close> returns \<open>NULL\<close>, and \<open>optimized_query\<close> passes that pointer
  to \<open>roaring_is_empty\<close>: whatever the index, the query does not return a result.
\<close>

theorem underscore_slice_null_dereference:
  "optimized_query gi ''__%a'' = Inl NullPointerDereference"
  by (simp add: optimized_query_def analyze_pattern_def query_multi_slice_def
      get_char_candidates_def)

section \<open>The verifier on values that contain a percent sign\<close>

text \<open>
  C9.  The value \<open>%a\<close> matches the pattern \<open>%%\<close> but not the pattern \<open>%\<close> obtained
  by collapsing the two percent signs: the verifier compares \<open>p[pi] == s[si]\<close>
  before it tests \<open>p[pi] == '%'\<close>, so a percent sign of the pattern that faces a
  percent sign of the value is consumed as a literal.
\<close>

theorem percent_collapse_fails_on_percent_value:
  "match_pattern ''%a'' ''%%'' = Some True \<and> match_pattern ''%a'' ''%'' = Some False"
  by code_simp


section \<open>The order of the result\<close>

lemma roaring_to_array_ok:
  "roaring_to_array rb = (ids, n) \<Longrightarrow> sorted_wrt (<) ids \<and> n = length ids"
  using roaring_to_array_sorted [of rb] roaring_to_array_count [of rb] by simp

lemma all_records_ok:
  "all_records gi = (ids, n) \<Longrightarrow> sorted_wrt (<) ids \<and> n = length ids"
  by (auto simp: all_records_def)

lemma query_single_slice_ok:
  "query_single_slice gi info = Inr (ids, n) \<Longrightarrow> sorted_wrt (<) ids \<and> n = length ids"
  unfolding query_single_slice_def Let_def
  by (auto split: option.splits if_splits dest: roaring_to_array_ok)

lemma multi_slice_finish_ok:
  "multi_slice_finish gi info min_len c = Inr (ids, n) \<Longrightarrow> sorted_wrt (<) ids \<and> n = length ids"
  unfolding multi_slice_finish_def Let_def
  by (auto split: if_splits dest: roaring_to_array_ok)

lemma multi_slice_candidates_ok:
  "multi_slice_candidates gi info min_len sls cand = Inr (ids, n) \<Longrightarrow>
   sorted_wrt (<) ids \<and> n = length ids"
proof (induction sls arbitrary: cand)
  case Nil
  then show ?case by (auto split: option.splits dest: multi_slice_finish_ok)
next
  case (Cons sl rest)
  then show ?case
    by (auto simp: Let_def split: option.splits sum.splits if_splits)
qed

lemma optimized_query_ok:
  "optimized_query gi pattern = Inr (ids, n) \<Longrightarrow> sorted_wrt (<) ids \<and> n = length ids"
  unfolding optimized_query_def Let_def
  by (auto simp: query_multi_slice_def Let_def split: if_splits prod.splits
      dest: roaring_to_array_ok all_records_ok query_single_slice_ok multi_slice_candidates_ok)

text \<open>
  C8.  Whatever the index and the pattern, the array of ids that \<open>optimized_query\<close>
  returns is strictly ascending, so no id occurs twice; the stored count is the length
  of the array, and the rows function emits exactly these ids, in this order, each with
  its stored value.
\<close>

theorem query_ids_strictly_ascending:
  assumes "optimized_query gi pattern = Inr (ids, n)"
  shows "sorted_wrt (<) ids \<and> distinct ids \<and> n = length ids \<and>
         optimized_like_query_rows (Some gi) pattern = Inr (map (\<lambda>i. (i, data gi ! i)) ids)"
proof -
  have ok: "sorted_wrt (<) ids" "n = length ids" using optimized_query_ok [OF assms] by auto
  have "distinct ids" using ok(1) by (simp add: strict_sorted_iff)
  moreover have "map (\<lambda>call_cntr. let row_idx = ids ! call_cntr in (row_idx, data gi ! row_idx))
          [0..<length ids] = map (\<lambda>i. (i, data gi ! i)) ids"
    by (rule nth_equalityI) (simp_all add: Let_def)
  ultimately show ?thesis using ok assms by (simp add: optimized_like_query_rows_def)
qed

theorem query_ids_strictly_ascending_witness:
  "optimized_query (build_optimized_index [Some ''ab'', Some ''a'']) ''a%'' =
     Inr ([0, 1], 2) \<and>
   sorted_wrt (<) [0, 1 :: nat] \<and> distinct [0, 1 :: nat] \<and> (2 :: nat) = length [0, 1 :: nat] \<and>
   optimized_like_query_rows (Some (build_optimized_index [Some ''ab'', Some ''a'']))
     ''a%'' = Inr [(0, ''ab''), (1, ''a'')]"
proof -
  let ?gi = "build_optimized_index [Some ''ab'', Some ''a'']"
  have h: "optimized_query ?gi ''a%'' = Inr ([0, 1], 2)" by code_simp
  have d: "map (\<lambda>i. (i, data ?gi ! i)) [0, 1] = [(0, ''ab''), (1, ''a'')]" by code_simp
  show ?thesis using query_ids_strictly_ascending [OF h] h d by simp
qed

section \<open>What the build stores\<close>


lemma index_add_pos_fields [simp]:
  "data (index_add_pos gi ch p idx) = data gi"
  "num_records (index_add_pos gi ch p idx) = num_records gi"
  "max_len (index_add_pos gi ch p idx) = max_len gi"
  "neg_idx (index_add_pos gi ch p idx) = neg_idx gi"
  "char_cache (index_add_pos gi ch p idx) = char_cache gi"
  "length_idx (index_add_pos gi ch p idx) = length_idx gi"
  by (simp_all add: index_add_pos_def set_pos_bitmap_def split: option.splits)

lemma index_add_neg_fields [simp]:
  "data (index_add_neg gi ch p idx) = data gi"
  "num_records (index_add_neg gi ch p idx) = num_records gi"
  "max_len (index_add_neg gi ch p idx) = max_len gi"
  "pos_idx (index_add_neg gi ch p idx) = pos_idx gi"
  "char_cache (index_add_neg gi ch p idx) = char_cache gi"
  "length_idx (index_add_neg gi ch p idx) = length_idx gi"
  by (simp_all add: index_add_neg_def set_neg_bitmap_def split: option.splits)



lemma pos_ids_index_add_neg [simp]: "pos_ids (index_add_neg gi ch p idx) = pos_ids gi"
  by (intro ext) (simp add: pos_ids_def get_pos_bitmap_def)

lemma neg_ids_index_add_pos [simp]: "neg_ids (index_add_pos gi ch p idx) = neg_ids gi"
  by (intro ext) (simp add: neg_ids_def get_neg_bitmap_def)

lemma index_positions_Suc:
  "index_positions str len idx (Suc n) gi =
     index_add_neg (index_add_pos (index_positions str len idx n gi) (str ! n) (int n) idx)
       (str ! (len - 1 - n)) (- (1 + int n)) idx"
  by (simp add: index_positions_def)

lemma index_positions_fields [simp]:
  "data (index_positions str len idx n gi) = data gi"
  "num_records (index_positions str len idx n gi) = num_records gi"
  "max_len (index_positions str len idx n gi) = max_len gi"
  "char_cache (index_positions str len idx n gi) = char_cache gi"
  "length_idx (index_positions str len idx n gi) = length_idx gi"
  by (induction n) (simp_all add: index_positions_Suc, simp_all add: index_positions_def)



lemma index_record_None:
  "index_record gi idx None = gi\<lparr>data := (data gi)[idx := []]\<rparr>"
  by (simp add: index_record_def)

lemma index_record_Some:
  "index_record gi idx (Some str) =
     index_positions str (indexed_len str) idx (indexed_len str)
       (gi\<lparr>data := (data gi)[idx := str], max_len := max (max_len gi) (indexed_len str)\<rparr>)"
proof -
  have "(if indexed_len str > max_len gi
         then gi\<lparr>data := (data gi)[idx := str], max_len := indexed_len str\<rparr>
         else gi\<lparr>data := (data gi)[idx := str]\<rparr>) =
        gi\<lparr>data := (data gi)[idx := str], max_len := max (max_len gi) (indexed_len str)\<rparr>"
    by (simp add: max_def)
  then show ?thesis
    by (simp add: index_record_def index_positions_def indexed_len_def Let_def)
qed

lemma pos_ids_update [simp]:
  "pos_ids (gi\<lparr>data := d\<rparr>) = pos_ids gi"
  "pos_ids (gi\<lparr>max_len := m\<rparr>) = pos_ids gi"
  "pos_ids (gi\<lparr>char_cache := c\<rparr>) = pos_ids gi"
  "pos_ids (gi\<lparr>length_idx := l\<rparr>) = pos_ids gi"
  by (intro ext; simp add: pos_ids_def get_pos_bitmap_def)+

lemma neg_ids_update [simp]:
  "neg_ids (gi\<lparr>data := d\<rparr>) = neg_ids gi"
  "neg_ids (gi\<lparr>max_len := m\<rparr>) = neg_ids gi"
  "neg_ids (gi\<lparr>char_cache := c\<rparr>) = neg_ids gi"
  "neg_ids (gi\<lparr>length_idx := l\<rparr>) = neg_ids gi"
  by (intro ext; simp add: neg_ids_def get_neg_bitmap_def)+

lemma records_indexed_0: "records_indexed rows 0 = empty_index (length rows)"
  by (simp add: records_indexed_def)

lemma records_indexed_Suc:
  "records_indexed rows (Suc n) = index_record (records_indexed rows n) n (rows ! n)"
  by (simp add: records_indexed_def)

lemma indexed_len_Nil [simp]: "indexed_len [] = 0"
  by (simp add: indexed_len_def)

lemma index_record_fields [simp]:
  "num_records (index_record gi idx row) = num_records gi"
  "char_cache (index_record gi idx row) = char_cache gi"
  "length_idx (index_record gi idx row) = length_idx gi"
  "data (index_record gi idx row) = (data gi)[idx := row_value row]"
  "max_len (index_record gi idx row) = max (max_len gi) (indexed_len (row_value row))"
  by (cases row; simp add: index_record_None index_record_Some row_value_def)+



lemma records_indexed_num_records [simp]:
  "num_records (records_indexed rows n) = length rows"
  by (induction n) (simp_all add: records_indexed_0 records_indexed_Suc empty_index_def)

lemma records_indexed_char_cache [simp]:
  "char_cache (records_indexed rows n) = (\<lambda>_. None)"
  by (induction n) (simp_all add: records_indexed_0 records_indexed_Suc empty_index_def)

lemma records_indexed_length_data [simp]:
  "length (data (records_indexed rows n)) = length rows"
  by (induction n) (simp_all add: records_indexed_0 records_indexed_Suc empty_index_def)

lemma records_indexed_data:
  "i < length rows \<Longrightarrow>
   data (records_indexed rows n) ! i = (if i < n then row_value (rows ! i) else [])"
proof (induction n)
  case 0
  then show ?case by (simp add: records_indexed_0 empty_index_def)
next
  case (Suc n)
  show ?case
  proof (cases "i = n")
    case True
    then show ?thesis using Suc.prems by (simp add: records_indexed_Suc)
  next
    case False
    then have "(i < Suc n) = (i < n)" by auto
    then show ?thesis using Suc False by (simp add: records_indexed_Suc)
  qed
qed

lemma records_indexed_max_len_ge:
  "i < n \<Longrightarrow> indexed_len (row_value (rows ! i)) \<le> max_len (records_indexed rows n)"
proof (induction n)
  case 0
  then show ?case by simp
next
  case (Suc n)
  show ?case
  proof (cases "i = n")
    case True
    then show ?thesis by (simp add: records_indexed_Suc)
  next
    case False
    then have "i < n" using Suc.prems by simp
    then have "indexed_len (row_value (rows ! i)) \<le> max_len (records_indexed rows n)"
      by (rule Suc.IH)
    then show ?thesis by (simp add: records_indexed_Suc)
  qed
qed

lemma indexed_len_le: "indexed_len s \<le> MAX_POSITIONS"
  by (simp add: indexed_len_def)

lemma records_indexed_max_len_le:
  "max_len (records_indexed rows n) \<le> MAX_POSITIONS"
  by (induction n)
    (simp_all add: records_indexed_0 records_indexed_Suc empty_index_def indexed_len_le)



lemma slot_ids_simps [simp]: "slot_ids None = {}" "slot_ids (Some bm) = ids_of bm"
  by (simp_all add: slot_ids_def)

lemma length_loop_Suc:
  "length_loop gi (Suc j) =
     (let lbs = length_loop gi j; len = length (data gi ! j)
      in if len \<ge> max_len gi + 1 then lbs
         else lbs[len := Some (roaring_add
                (case lbs ! len of None \<Rightarrow> roaring_create | Some bm \<Rightarrow> bm) j)])"
  by (simp add: length_loop_def Let_def)

lemma length_length_loop [simp]: "length (length_loop gi j) = max_len gi + 1"
  by (induction j) (simp_all add: length_loop_Suc Let_def, simp add: length_loop_def)

lemma length_loop_slot:
  "k \<le> max_len gi \<Longrightarrow>
   slot_ids (length_loop gi j ! k) = {i. i < j \<and> length (data gi ! i) = k} \<and>
   (length_loop gi j ! k = None \<longleftrightarrow> {i. i < j \<and> length (data gi ! i) = k} = {})"
proof (induction j)
  case 0
  have "replicate (max_len gi + 1) (None :: RoaringBitmap option) ! k = None"
    using 0 by (intro nth_replicate) simp
  then show ?case by (simp add: length_loop_def del: replicate_Suc)
next
  case (Suc j)
  let ?S = "\<lambda>j. {i. i < j \<and> length (data gi ! i) = k}"
  have step: "?S (Suc j) = ?S j \<union> (if length (data gi ! j) = k then {j} else {})"
    by (auto simp: less_Suc_eq)
  have ih: "slot_ids (length_loop gi j ! k) = ?S j" "length_loop gi j ! k = None \<longleftrightarrow> ?S j = {}"
    using Suc by auto
  show ?case
  proof (cases "length (data gi ! j) = k")
    case True
    then have "length_loop gi (Suc j) ! k =
        Some (roaring_add (case length_loop gi j ! k of None \<Rightarrow> roaring_create | Some bm \<Rightarrow> bm) j)"
      using Suc.prems by (simp add: length_loop_Suc Let_def)
    moreover have "ids_of (case length_loop gi j ! k of None \<Rightarrow> roaring_create | Some bm \<Rightarrow> bm) =
        slot_ids (length_loop gi j ! k)"
      by (simp add: slot_ids_def split: option.splits)
    ultimately show ?thesis using True ih(1) by (simp add: step)
  next
    case False
    then have "length_loop gi (Suc j) ! k = length_loop gi j ! k"
      by (simp add: length_loop_Suc Let_def)
    then show ?thesis using False ih by (simp add: step)
  qed
qed

lemma build_length_index_eq:
  "build_length_index gi =
     gi\<lparr>length_idx := \<lparr>length_bitmaps = length_loop gi (num_records gi),
                        max_length = max_len gi + 1\<rparr>\<rparr>"
  by (simp add: build_length_index_def length_loop_def Let_def)

lemma length_ids_build_length_index:
  "length_ids (build_length_index gi) k =
     {i. i < num_records gi \<and> length (data gi ! i) = k \<and> k \<le> max_len gi}"
proof (cases "k \<le> max_len gi")
  case True
  then show ?thesis
    using length_loop_slot [OF True, of "num_records gi"]
    by (simp add: length_ids_def build_length_index_eq slot_ids_def)
next
  case False
  then show ?thesis by (simp add: length_ids_def build_length_index_eq)
qed

lemma build_optimized_index_eq:
  "build_optimized_index rows =
     build_length_index (build_char_cache (records_indexed rows (length rows)))"
  by (simp add: build_optimized_index_def records_indexed_def)

lemma build_char_cache_fields [simp]:
  "data (build_char_cache gi) = data gi"
  "num_records (build_char_cache gi) = num_records gi"
  "max_len (build_char_cache gi) = max_len gi"
  "pos_idx (build_char_cache gi) = pos_idx gi"
  "neg_idx (build_char_cache gi) = neg_idx gi"
  "length_idx (build_char_cache gi) = length_idx gi"
  by (simp_all add: build_char_cache_def)

lemma build_length_index_fields [simp]:
  "data (build_length_index gi) = data gi"
  "num_records (build_length_index gi) = num_records gi"
  "max_len (build_length_index gi) = max_len gi"
  "pos_idx (build_length_index gi) = pos_idx gi"
  "neg_idx (build_length_index gi) = neg_idx gi"
  "char_cache (build_length_index gi) = char_cache gi"
  "max_length (length_idx (build_length_index gi)) = max_len gi + 1"
  by (simp_all add: build_length_index_eq)

lemma build_num_records [simp]: "num_records (build_optimized_index rows) = length rows"
  by (simp add: build_optimized_index_eq)

lemma build_data: "data (build_optimized_index rows) = map row_value rows"
  by (rule nth_equalityI) (simp_all add: build_optimized_index_eq records_indexed_data)

lemma build_data_nth [simp]:
  "i < length rows \<Longrightarrow> data (build_optimized_index rows) ! i = row_value (rows ! i)"
  by (simp add: build_data)

lemma build_max_len_le: "max_len (build_optimized_index rows) \<le> MAX_POSITIONS"
  by (simp add: build_optimized_index_eq records_indexed_max_len_le)

lemma build_max_length [simp]:
  "max_length (length_idx (build_optimized_index rows)) = max_len (build_optimized_index rows) + 1"
  by (simp add: build_optimized_index_eq)

lemma build_max_len_ge:
  "i < length rows \<Longrightarrow> indexed_len (row_value (rows ! i)) \<le> max_len (build_optimized_index rows)"
  by (simp add: build_optimized_index_eq records_indexed_max_len_ge)

lemma build_length_ids:
  "length_ids (build_optimized_index rows) k =
     {i. i < length rows \<and> length (row_value (rows ! i)) = k \<and> k \<le> MAX_POSITIONS}"
proof -
  let ?gi = "build_optimized_index rows"
  let ?ri = "records_indexed rows (length rows)"
  have e: "length_ids ?gi k = {i. i < length rows \<and> length (data ?ri ! i) = k \<and> k \<le> max_len ?ri}"
    using length_ids_build_length_index [of "build_char_cache ?ri" k]
    by (simp add: build_optimized_index_eq)
  have m: "max_len ?ri = max_len ?gi" by (simp add: build_optimized_index_eq)
  have "(i < length rows \<and> length (data ?ri ! i) = k \<and> k \<le> max_len ?ri) \<longleftrightarrow>
        (i < length rows \<and> length (row_value (rows ! i)) = k \<and> k \<le> MAX_POSITIONS)" for i
  proof (cases "i < length rows \<and> length (row_value (rows ! i)) = k")
    case True
    then have i: "i < length rows" and l: "length (row_value (rows ! i)) = k" by auto
    have d: "data ?ri ! i = row_value (rows ! i)" using i by (simp add: records_indexed_data)
    have "k \<le> max_len ?ri \<longleftrightarrow> k \<le> MAX_POSITIONS"
    proof
      assume "k \<le> max_len ?ri"
      then show "k \<le> MAX_POSITIONS" using build_max_len_le [of rows] m by linarith
    next
      assume "k \<le> MAX_POSITIONS"
      then have "indexed_len (row_value (rows ! i)) = k" using l by (simp add: indexed_len_def)
      then show "k \<le> max_len ?ri" using build_max_len_ge [OF i] m by simp
    qed
    then show ?thesis using i l d by simp
  next
    case False
    then show ?thesis by (auto simp: records_indexed_data)
  qed
  then show ?thesis unfolding e by (rule Collect_cong)
qed









section \<open>The length index and the patterns made of wildcards\<close>

text \<open>
  C6 (as stated).  A row whose value is 257 bytes long is stored in full, but it is a
  member of no length bitmap, not even of the one for its own length.
\<close>

theorem long_record_in_no_length_bitmap:
  "length (data (build_optimized_index [Some (replicate 257 (CHR ''a''))]) ! 0) = 257 \<and>
   0 \<notin> length_ids (build_optimized_index [Some (replicate 257 (CHR ''a''))]) 257"
  by (simp add: build_length_ids MAX_POSITIONS_def row_value_def)

text \<open>
  C6 (amended).  After the build, an id is a member of the length bitmap \<open>L[k]\<close>
  exactly when it is the id of a record whose stored value has length \<open>k\<close> and
  \<open>k\<close> is at most \<open>MAX_POSITIONS = 256\<close>.  So every record whose value has at most
  256 bytes belongs to exactly one length bitmap, the one of its length, and a record
  with a longer value belongs to none.
\<close>

theorem length_index_partition:
  "i \<in> length_ids (build_optimized_index rows) k \<longleftrightarrow>
     i < length rows \<and> length (data (build_optimized_index rows) ! i) = k \<and> k \<le> MAX_POSITIONS"
  by (auto simp: build_length_ids)





section \<open>The branches of the query on a finished index\<close>

subsection \<open>The positional match loops\<close>

lemma opt_ids_simps [simp]: "opt_ids None = UNIV" "opt_ids (Some r) = ids_of r"
  by (simp_all add: opt_ids_def)













subsection \<open>The character-anywhere cache\<close>













lemma literal_bytes_Nil [simp]: "literal_bytes [] seen = {}"
  by (simp add: literal_bytes_def)


subsection \<open>Pattern analysis\<close>











subsection \<open>The verification loops\<close>





lemma empty_result:
  "S = {} \<Longrightarrow> \<exists>ids n. (Inr ([], 0) :: error + nat list \<times> nat) = Inr (ids, n) \<and> set ids = S"
  by simp


lemma multi_answer_empty [simp]: "multi_answer gi info min_len {} = {}"
  by (simp add: multi_answer_def)








subsection \<open>The string scans\<close>























section \<open>Length necessity\<close>




section \<open>The query and the verifier\<close>

subsection \<open>The meaning of a pattern\<close>


lemma like_match_plain:
  "p \<noteq> CHR ''%'' \<Longrightarrow>
   like_match s (p # ps) \<longleftrightarrow> s \<noteq> [] \<and> (p = CHR ''_'' \<or> hd s = p) \<and> like_match (tl s) ps"
  by (cases s) auto


lemma like_match_all_percent:
  "ps \<noteq> [] \<Longrightarrow> set ps \<subseteq> {CHR ''%''} \<Longrightarrow> like_match s ps"
proof (induction ps arbitrary: s)
  case Nil
  then show ?case by simp
next
  case (Cons p ps)
  show ?case
  proof (cases "ps = []")
    case True
    then show ?thesis using Cons.prems by (auto intro: exI [of _ "length s"])
  next
    case False
    then have "like_match (drop 0 s) ps" using Cons by simp
    then show ?thesis using Cons.prems by (auto intro: exI [of _ 0])
  qed
qed









subsection \<open>The verifier computes the meaning of the pattern\<close>




subsection \<open>Slices and the meaning of a pattern\<close>





















subsection \<open>The query computes the meaning of the pattern\<close>







subsection \<open>The query against the verifier\<close>





end
